theory Spec2Isabelle
  imports Complex_Main
begin

section \<open>The activity lifecycle engine (src/core/activity.py)\<close>

text \<open>
  Modelling conventions.
  \<^item> A naive \<^verbatim>\<open>datetime\<close> is an integer number of microseconds since midnight of
    day 0; a \<^verbatim>\<open>timedelta\<close> is an integer number of microseconds. The range limits
    of Python's \<^verbatim>\<open>datetime\<close> (years 1 to 9999) are not modelled.
  \<^item> Every call of \<^verbatim>\<open>datetime.now()\<close> is an explicit argument of the function that
    makes it.
  \<^item> The three abstract methods of an activity are the environment: what each one does
    when called is an \<open>outcome\<close>, either a returned boolean or a raised exception
    (an instance of \<^verbatim>\<open>Exception\<close>, the class both handlers of the source name).
    A phase does not itself assign the fields of the activity.
  \<^item> The two callbacks are observers: a call is recorded in \<open>callback_log\<close>, in order,
    and does not raise. Logging is not modelled.
  \<^item> Counters that start at 0 and are only incremented or reset are natural numbers;
    the configuration's integers are Python integers, so they are of type \<open>int\<close>.
\<close>

subsection \<open>Data model\<close>

datatype activity_state =
  IDLE | SCHEDULED | CHECKING | READY | EXECUTING | VERIFYING | SUCCESS | FAILED | DISABLED

record activity_config =
  enabled :: bool
  interval_hours :: int
  interval_minutes :: int
  start_time :: "string option"
  end_time :: "string option"
  priority :: int
  max_retries :: int
  retry_delay_minutes :: int
  max_execution_seconds :: int

datatype event =
  StateChange activity_state activity_state
| ExecutionComplete bool

record activity =
  name :: string
  config :: activity_config
  state :: activity_state
  last_execution :: "int option"
  next_execution :: "int option"
  retry_count :: nat
  total_executions :: nat
  successful_executions :: nat
  failed_executions :: nat
  total_execution_time_seconds :: real
  average_execution_time_seconds :: real
  on_state_change :: bool
  on_execution_complete :: bool
  callback_log :: "event list"

text \<open>\<^verbatim>\<open>Activity.__init__\<close>: no callback is set, nothing has run.\<close>

definition Activity_init :: "string \<Rightarrow> activity_config \<Rightarrow> activity" where
  "Activity_init nm cfg =
     \<lparr> name = nm,
       config = cfg,
       state = (if \<not> enabled cfg then IDLE else SCHEDULED),
       last_execution = None,
       next_execution = None,
       retry_count = 0,
       total_executions = 0,
       successful_executions = 0,
       failed_executions = 0,
       total_execution_time_seconds = 0,
       average_execution_time_seconds = 0,
       on_state_change = False,
       on_execution_complete = False,
       callback_log = [] \<rparr>"

subsection \<open>Time\<close>

definition usec_per_minute :: int where
  "usec_per_minute = 60000000"

definition usec_per_day :: int where
  "usec_per_day = 86400000000"

text \<open>\<^verbatim>\<open>timedelta(hours=h, minutes=m)\<close>\<close>

definition timedelta :: "int \<Rightarrow> int \<Rightarrow> int" where
  "timedelta hours minutes = (hours * 60 + minutes) * usec_per_minute"

text \<open>\<^verbatim>\<open>dt.date()\<close>, \<^verbatim>\<open>dt.time()\<close> and \<^verbatim>\<open>datetime.combine(date, time)\<close>\<close>

definition date_of :: "int \<Rightarrow> int" where
  "date_of t = t div usec_per_day"

definition time_of :: "int \<Rightarrow> int" where
  "time_of t = t mod usec_per_day"

definition combine :: "int \<Rightarrow> int \<Rightarrow> int" where
  "combine d tod = d * usec_per_day + tod"

text \<open>\<^verbatim>\<open>(t1 - t0).total_seconds()\<close>\<close>

definition total_seconds :: "int \<Rightarrow> real" where
  "total_seconds delta = real_of_int delta / 1000000"

subsection \<open>Parsing the daily window\<close>

text \<open>
  \<^verbatim>\<open>hour, minute = map(int, s.split(':'))\<close> followed by \<^verbatim>\<open>dt_time(hour, minute)\<close>.
  Any failure (a number of pieces other than two, a piece that \<^verbatim>\<open>int\<close> rejects, an
  hour or minute out of range) raises \<^verbatim>\<open>ValueError\<close>, which is the value \<open>None\<close> here.
  Strings are ASCII.
\<close>

fun split_colon :: "string \<Rightarrow> string list" where
  "split_colon [] = [[]]"
| "split_colon (c # cs) =
     (if c = CHR '':'' then [] # split_colon cs
      else (case split_colon cs of
              [] \<Rightarrow> [[c]]
            | p # ps \<Rightarrow> (c # p) # ps))"

definition is_space :: "char \<Rightarrow> bool" where
  "is_space c =
     (let n = (of_char c :: nat) in (9 \<le> n \<and> n \<le> 13) \<or> (28 \<le> n \<and> n \<le> 32))"

definition is_digit :: "char \<Rightarrow> bool" where
  "is_digit c = (let n = (of_char c :: nat) in 48 \<le> n \<and> n \<le> 57)"

definition digit_value :: "char \<Rightarrow> nat" where
  "digit_value c = (of_char c :: nat) - 48"

definition strip :: "string \<Rightarrow> string" where
  "strip s = rev (dropWhile is_space (rev (dropWhile is_space s)))"

text \<open>
  The digits of a decimal literal: at least one digit, single underscores allowed
  between digits only.
\<close>

fun parse_digits :: "nat \<Rightarrow> bool \<Rightarrow> string \<Rightarrow> nat option" where
  "parse_digits acc prev_digit [] = (if prev_digit then Some acc else None)"
| "parse_digits acc prev_digit (c # cs) =
     (if is_digit c then parse_digits (10 * acc + digit_value c) True cs
      else if c = CHR ''_'' \<and> prev_digit then parse_digits acc False cs
      else None)"

text \<open>\<^verbatim>\<open>int(s)\<close> for a string \<open>s\<close>\<close>

definition py_int :: "string \<Rightarrow> int option" where
  "py_int s =
     (case strip s of
        [] \<Rightarrow> None
      | c # cs \<Rightarrow>
          if c = CHR ''+'' then map_option int (parse_digits 0 False cs)
          else if c = CHR ''-'' then map_option (\<lambda>n. - int n) (parse_digits 0 False cs)
          else map_option int (parse_digits 0 False (c # cs)))"

text \<open>\<^verbatim>\<open>dt_time(hour, minute)\<close> as microseconds since midnight\<close>

definition dt_time :: "int \<Rightarrow> int \<Rightarrow> int option" where
  "dt_time hour minute =
     (if 0 \<le> hour \<and> hour < 24 \<and> 0 \<le> minute \<and> minute < 60
      then Some ((hour * 60 + minute) * usec_per_minute)
      else None)"

definition parse_time :: "string \<Rightarrow> int option" where
  "parse_time s =
     (case map py_int (split_colon s) of
        [Some hour, Some minute] \<Rightarrow> dt_time hour minute
      | _ \<Rightarrow> None)"

text \<open>Truth value of an \<^verbatim>\<open>Optional[str]\<close>: \<^verbatim>\<open>None\<close> and the empty string are false.\<close>

definition truthy :: "string option \<Rightarrow> bool" where
  "truthy s = (case s of None \<Rightarrow> False | Some v \<Rightarrow> v \<noteq> [])"

text \<open>
  The first half of the \<^verbatim>\<open>try\<close> block of \<^verbatim>\<open>_adjust_for_time_window\<close>: the parsed
  \<^verbatim>\<open>start_time\<close> and \<^verbatim>\<open>end_time\<close> (each \<open>None\<close> when not configured), or \<open>None\<close>
  when parsing raised.
\<close>

definition parse_window :: "activity_config \<Rightarrow> (int option \<times> int option) option" where
  "parse_window c =
     (let start_res = (case start_time c of
                         None \<Rightarrow> Some None
                       | Some s \<Rightarrow> if s = [] then Some None
                                   else map_option Some (parse_time s));
          end_res = (case end_time c of
                       None \<Rightarrow> Some None
                     | Some s \<Rightarrow> if s = [] then Some None
                                 else map_option Some (parse_time s))
      in case start_res of
           None \<Rightarrow> None
         | Some st \<Rightarrow> (case end_res of None \<Rightarrow> None | Some en \<Rightarrow> Some (st, en)))"

subsection \<open>Timing and scheduling\<close>

definition adjust_for_time_window :: "activity_config \<Rightarrow> int \<Rightarrow> int" where
  "adjust_for_time_window c next_time =
     (if \<not> (truthy (start_time c) \<or> truthy (end_time c)) then next_time
      else
        case parse_window c of
          None \<Rightarrow> next_time
        | Some (start_t, end_t) \<Rightarrow>
            let next_time_of_day = time_of next_time in
            if start_t \<noteq> None \<and> next_time_of_day < the start_t
            then combine (date_of next_time) (the start_t)
            else if end_t \<noteq> None \<and> next_time_of_day > the end_t
            then (if start_t \<noteq> None
                  then combine (date_of next_time + 1) (the start_t)
                  else next_time)
            else next_time)"

definition get_next_execution_time :: "int \<Rightarrow> activity \<Rightarrow> int" where
  "get_next_execution_time now a =
     (case last_execution a of
        None \<Rightarrow> now
      | Some last_run \<Rightarrow>
          let interval = timedelta (interval_hours (config a)) (interval_minutes (config a));
              next_time = last_run + interval
          in if truthy (start_time (config a)) \<or> truthy (end_time (config a))
             then adjust_for_time_window (config a) next_time
             else next_time)"

text \<open>
  \<^verbatim>\<open>is_due\<close> fills in \<^verbatim>\<open>next_execution\<close> when it is \<^verbatim>\<open>None\<close>, so it returns the
  activity as well.
\<close>

definition is_due :: "int \<Rightarrow> activity \<Rightarrow> bool \<times> activity" where
  "is_due now a =
     (if \<not> enabled (config a) then (False, a)
      else if state a = DISABLED then (False, a)
      else
        case next_execution a of
          None \<Rightarrow>
            let nxt = get_next_execution_time now a
            in (now \<ge> nxt, a\<lparr>next_execution := Some nxt\<rparr>)
        | Some nxt \<Rightarrow> (now \<ge> nxt, a))"

subsection \<open>Lifecycle\<close>

datatype outcome = Returns bool | Raises

record phases =
  check_prerequisites :: outcome
  execute :: outcome
  verify_completion :: outcome

text \<open>
  The readings of the clock during one \<^verbatim>\<open>run()\<close>: at its first line, after a
  successful verification, and inside \<^verbatim>\<open>_handle_success\<close> or \<^verbatim>\<open>_handle_failure\<close>.
\<close>

record run_clock =
  execution_start :: int
  execution_end :: int
  handled_at :: int

definition change_state :: "activity_state \<Rightarrow> activity \<Rightarrow> activity" where
  "change_state new_state a =
     (let old_state = state a;
          a' = a\<lparr>state := new_state\<rparr>
      in if on_state_change a' \<and> old_state \<noteq> new_state
         then a'\<lparr>callback_log := callback_log a' @ [StateChange old_state new_state]\<rparr>
         else a')"

text \<open>
  \<^verbatim>\<open>_run_with_timeout\<close>: the result of the call, or \<^verbatim>\<open>False\<close> when it raised. An
  overrun of the time budget is only logged.
\<close>

definition run_with_timeout :: "outcome \<Rightarrow> bool" where
  "run_with_timeout func = (case func of Returns result \<Rightarrow> result | Raises \<Rightarrow> False)"

text \<open>
  The last statement of \<^verbatim>\<open>_handle_success\<close> and \<^verbatim>\<open>_handle_failure\<close>: the call of
  \<^verbatim>\<open>on_execution_complete\<close> when it is set.
\<close>

definition notify_complete :: "bool \<Rightarrow> activity \<Rightarrow> activity" where
  "notify_complete success a =
     (if on_execution_complete a
      then a\<lparr>callback_log := callback_log a @ [ExecutionComplete success]\<rparr>
      else a)"

definition handle_success :: "real \<Rightarrow> int \<Rightarrow> activity \<Rightarrow> activity" where
  "handle_success execution_time now a0 =
     (let a1 = a0\<lparr>total_executions := total_executions a0 + 1\<rparr>;
          a2 = a1\<lparr>successful_executions := successful_executions a1 + 1\<rparr>;
          a3 = a2\<lparr>retry_count := 0\<rparr>;
          a4 = a3\<lparr>last_execution := Some now\<rparr>;
          a5 = a4\<lparr>next_execution := Some (get_next_execution_time now a4)\<rparr>;
          a6 = a5\<lparr>total_execution_time_seconds :=
                      total_execution_time_seconds a5 + execution_time\<rparr>;
          a7 = a6\<lparr>average_execution_time_seconds :=
                      total_execution_time_seconds a6 / real (total_executions a6)\<rparr>
      in notify_complete True a7)"

definition handle_failure :: "int \<Rightarrow> activity \<Rightarrow> activity" where
  "handle_failure now a0 =
     (let a1 = a0\<lparr>total_executions := total_executions a0 + 1\<rparr>;
          a2 = a1\<lparr>failed_executions := failed_executions a1 + 1\<rparr>;
          a3 = a2\<lparr>retry_count := retry_count a2 + 1\<rparr>;
          a4 = (if int (retry_count a3) \<ge> max_retries (config a3)
                then (let d = change_state DISABLED a3
                      in d\<lparr>config := (config d)\<lparr>enabled := False\<rparr>\<rparr>)
                else a3\<lparr>next_execution :=
                          Some (now + timedelta 0 (retry_delay_minutes (config a3)))\<rparr>)
      in notify_complete False a4)"

text \<open>The \<^verbatim>\<open>try\<close> block of \<^verbatim>\<open>run()\<close>: the returned value and the activity after it.\<close>

definition run_body :: "phases \<Rightarrow> run_clock \<Rightarrow> activity \<Rightarrow> bool \<times> activity" where
  "run_body ph clk a0 =
     (let a1 = change_state CHECKING a0 in
      if \<not> run_with_timeout (check_prerequisites ph)
      then (False, change_state SCHEDULED a1)
      else
        let a2 = change_state READY a1;
            a3 = change_state EXECUTING a2;
            execution_success = run_with_timeout (execute ph)
        in if \<not> execution_success then (False, handle_failure (handled_at clk) a3)
           else
             let a4 = change_state VERIFYING a3;
                 verification_success = run_with_timeout (verify_completion ph)
             in if \<not> verification_success then (False, handle_failure (handled_at clk) a4)
                else
                  let a5 = change_state SUCCESS a4;
                      execution_time = total_seconds (execution_end clk - execution_start clk)
                  in (True, handle_success execution_time (handled_at clk) a5))"

text \<open>
  \<^verbatim>\<open>run()\<close>: the \<^verbatim>\<open>try\<close> block, then the \<^verbatim>\<open>finally\<close> clause. Nothing in the
  \<^verbatim>\<open>try\<close> block raises here (an exception of a phase is caught in
  \<^verbatim>\<open>_run_with_timeout\<close>), so the \<^verbatim>\<open>except\<close> clause of \<^verbatim>\<open>run()\<close> has no branch.
\<close>

definition run :: "phases \<Rightarrow> run_clock \<Rightarrow> activity \<Rightarrow> bool \<times> activity" where
  "run ph clk a =
     (let (result, a') = run_body ph clk a
      in (result, if state a' \<noteq> DISABLED then change_state SCHEDULED a' else a'))"

subsection \<open>Control methods\<close>

definition enable :: "activity \<Rightarrow> activity" where
  "enable a =
     (let a1 = a\<lparr>config := (config a)\<lparr>enabled := True\<rparr>\<rparr>;
          a2 = a1\<lparr>retry_count := 0\<rparr>
      in change_state SCHEDULED a2)"

definition disable :: "activity \<Rightarrow> activity" where
  "disable a = change_state IDLE (a\<lparr>config := (config a)\<lparr>enabled := False\<rparr>\<rparr>)"

definition reset_statistics :: "activity \<Rightarrow> activity" where
  "reset_statistics a =
     a\<lparr>total_executions := 0,
       successful_executions := 0,
       failed_executions := 0,
       total_execution_time_seconds := 0,
       average_execution_time_seconds := 0,
       retry_count := 0\<rparr>"

definition force_run_now :: "int \<Rightarrow> activity \<Rightarrow> activity" where
  "force_run_now now a = a\<lparr>next_execution := Some now\<rparr>"

section \<open>The scheduler (src/core/scheduler.py)\<close>

text \<open>
  The scheduler holds references to activity objects: the same object is in the list
  \<^verbatim>\<open>_activities\<close> and in the dictionary \<^verbatim>\<open>_activities_by_id\<close>, and
  \<^verbatim>\<open>activity in self._activities\<close> compares by identity (the class defines no
  \<^verbatim>\<open>__eq__\<close>). So an activity is a reference into the store \<open>objects\<close>. A thread
  started by \<^verbatim>\<open>run_activity_now\<close> is an entry of \<open>started_threads\<close>: the activity that
  \<^verbatim>\<open>_execute_activity\<close> will be called on. The scheduler's own callbacks, its
  \<^verbatim>\<open>running\<close> flag and \<^verbatim>\<open>start_time\<close> are not modelled.
\<close>

type_synonym ref = nat

record scheduler =
  objects :: "ref \<Rightarrow> activity"
  activities :: "ref list"
  activities_by_id :: "string \<Rightarrow> ref option"
  current_activity :: "ref option"
  sched_total_executions :: nat
  sched_successful_executions :: nat
  sched_failed_executions :: nat
  started_threads :: "ref list"

datatype py_error = ValueError

definition ActivityScheduler_init :: "(ref \<Rightarrow> activity) \<Rightarrow> scheduler" where
  "ActivityScheduler_init objs =
     \<lparr> objects = objs,
       activities = [],
       activities_by_id = (\<lambda>k. None),
       current_activity = None,
       sched_total_executions = 0,
       sched_successful_executions = 0,
       sched_failed_executions = 0,
       started_threads = [] \<rparr>"

subsection \<open>Registration\<close>

definition lower_char :: "char \<Rightarrow> char" where
  "lower_char c =
     (let n = (of_char c :: nat) in if 65 \<le> n \<and> n \<le> 90 then char_of (n + 32) else c)"

text \<open>\<^verbatim>\<open>activity.name.lower().replace(' ', '_')\<close>\<close>

definition default_id :: "string \<Rightarrow> string" where
  "default_id nm = map (\<lambda>c. if c = CHR '' '' then CHR ''_'' else c) (map lower_char nm)"

definition register_activity :: "ref \<Rightarrow> string option \<Rightarrow> scheduler \<Rightarrow> scheduler" where
  "register_activity r activity_id s =
     (if r \<in> set (activities s) then s
      else
        let s1 = s\<lparr>activities := activities s @ [r]\<rparr>;
            key = (if truthy activity_id then the activity_id
                   else default_id (name (objects s1 r)));
            s2 = s1\<lparr>activities_by_id := (activities_by_id s1)(key := Some r)\<rparr>
        in s2\<lparr>objects := (objects s2)
                 (r := (objects s2 r)\<lparr>on_state_change := True,
                                       on_execution_complete := True\<rparr>)\<rparr>)"

text \<open>\<^verbatim>\<open>list.remove\<close> raises \<^verbatim>\<open>ValueError\<close> when the element is not in the list.\<close>

definition unregister_activity :: "string \<Rightarrow> scheduler \<Rightarrow> py_error + bool \<times> scheduler" where
  "unregister_activity activity_id s =
     (case activities_by_id s activity_id of
        None \<Rightarrow> Inr (False, s)
      | Some r \<Rightarrow>
          if r \<notin> set (activities s) then Inl ValueError
          else
            let s1 = s\<lparr>activities := remove1 r (activities s)\<rparr>;
                s2 = s1\<lparr>activities_by_id := (activities_by_id s1)(activity_id := None)\<rparr>
            in Inr (True, s2))"

definition get_activity :: "string \<Rightarrow> scheduler \<Rightarrow> ref option" where
  "get_activity activity_id s = activities_by_id s activity_id"

subsection \<open>Selection and execution\<close>

text \<open>
  The loop of \<^verbatim>\<open>_get_next_due_activity\<close> over \<^verbatim>\<open>self._activities\<close>: the due
  activities in list order, and the store after the calls of \<^verbatim>\<open>is_due\<close>.
\<close>

fun find_due :: "int \<Rightarrow> ref list \<Rightarrow> (ref \<Rightarrow> activity) \<Rightarrow> ref list \<times> (ref \<Rightarrow> activity)" where
  "find_due now [] objs = ([], objs)"
| "find_due now (r # rs) objs =
     (if \<not> enabled (config (objs r)) then find_due now rs objs
      else if state (objs r) = DISABLED then find_due now rs objs
      else
        let (due, a') = is_due now (objs r);
            (due_activities, objs') = find_due now rs (objs(r := a'))
        in (if due then r # due_activities else due_activities, objs'))"

text \<open>
  \<^verbatim>\<open>list.sort(key=...)\<close> is stable, as is \<open>sort_key\<close>: elements with equal keys keep
  their order.
\<close>

definition get_next_due_activity :: "int \<Rightarrow> scheduler \<Rightarrow> ref option \<times> scheduler" where
  "get_next_due_activity now s =
     (let (due_activities, objs') = find_due now (activities s) (objects s);
          s' = s\<lparr>objects := objs'\<rparr>
      in case sort_key (\<lambda>r. priority (config (objs' r))) due_activities of
           [] \<Rightarrow> (None, s')
         | next_activity # _ \<Rightarrow> (Some next_activity, s'))"

definition execute_activity :: "phases \<Rightarrow> run_clock \<Rightarrow> ref \<Rightarrow> scheduler \<Rightarrow> scheduler" where
  "execute_activity ph clk r s0 =
     (let s1 = s0\<lparr>current_activity := Some r\<rparr>;
          (success, a') = run ph clk (objects s1 r);
          s2 = s1\<lparr>objects := (objects s1)(r := a')\<rparr>;
          s3 = s2\<lparr>sched_total_executions := sched_total_executions s2 + 1\<rparr>;
          s4 = (if success
                then s3\<lparr>sched_successful_executions := sched_successful_executions s3 + 1\<rparr>
                else s3\<lparr>sched_failed_executions := sched_failed_executions s3 + 1\<rparr>)
      in s4\<lparr>current_activity := None\<rparr>)"

text \<open>
  One iteration of the \<^verbatim>\<open>while\<close> loop of \<^verbatim>\<open>_scheduler_loop\<close>. The environment
  \<open>env\<close> gives the behaviour of the phases of each activity during this iteration.
\<close>

definition scheduler_loop_step ::
  "int \<Rightarrow> (ref \<Rightarrow> phases) \<Rightarrow> run_clock \<Rightarrow> scheduler \<Rightarrow> scheduler" where
  "scheduler_loop_step now env clk s =
     (case get_next_due_activity now s of
        (None, s') \<Rightarrow> s'
      | (Some r, s') \<Rightarrow> execute_activity (env r) clk r s')"

subsection \<open>Manual control\<close>


section \<open>Vocabulary of the properties\<close>

text \<open>
  A failed run: the prerequisites are met, and the execution or the verification does
  not return \<^verbatim>\<open>True\<close>.
\<close>

definition failing :: "phases \<Rightarrow> bool" where
  "failing ph =
     (check_prerequisites ph = Returns True \<and>
      (execute ph \<noteq> Returns True \<or> verify_completion ph \<noteq> Returns True))"

text \<open>Consecutive calls of \<^verbatim>\<open>run()\<close> on one activity, each with its phases and clock.\<close>

fun run_all :: "(phases \<times> run_clock) list \<Rightarrow> activity \<Rightarrow> activity" where
  "run_all [] a = a"
| "run_all ((ph, clk) # rest) a = run_all rest (snd (run ph clk a))"

text \<open>
  The example of the specification: task A with priority 1, an interval of 10 minutes,
  2 retries and a retry delay of 5 minutes, whose execution fails.
\<close>

definition scenario_config :: activity_config where
  "scenario_config =
     \<lparr> enabled = True, interval_hours = 0, interval_minutes = 10,
       start_time = None, end_time = None, priority = 1,
       max_retries = 2, retry_delay_minutes = 5, max_execution_seconds = 300 \<rparr>"

definition task_A :: activity where
  "task_A = Activity_init ''Task A'' scenario_config"

definition execute_fails :: phases where
  "execute_fails =
     \<lparr> check_prerequisites = Returns True, execute = Returns False,
       verify_completion = Returns True \<rparr>"

definition clock_at :: "int \<Rightarrow> run_clock" where
  "clock_at t = \<lparr> execution_start = t, execution_end = t, handled_at = t \<rparr>"

text \<open>
  The callback invocations made between two states of an activity, and the invocations
  that one call of \<^verbatim>\<open>run()\<close> makes when \<^verbatim>\<open>on_state_change\<close> is set.
\<close>

definition new_events :: "activity \<Rightarrow> activity \<Rightarrow> event list" where
  "new_events a a' = drop (length (callback_log a)) (callback_log a')"

definition completion_event :: "bool \<Rightarrow> activity \<Rightarrow> event list" where
  "completion_event success a = (if on_execution_complete a then [ExecutionComplete success] else [])"

definition failure_events :: "activity_state \<Rightarrow> activity \<Rightarrow> event list" where
  "failure_events st a =
     (if int (retry_count a) + 1 \<ge> max_retries (config a)
      then StateChange st DISABLED # completion_event False a
      else completion_event False a @ [StateChange st SCHEDULED])"

definition run_events :: "phases \<Rightarrow> activity \<Rightarrow> event list" where
  "run_events ph a =
     (if state a \<noteq> CHECKING then [StateChange (state a) CHECKING] else []) @
     (if check_prerequisites ph \<noteq> Returns True then [StateChange CHECKING SCHEDULED]
      else [StateChange CHECKING READY, StateChange READY EXECUTING] @
        (if execute ph \<noteq> Returns True then failure_events EXECUTING a
         else StateChange EXECUTING VERIFYING #
           (if verify_completion ph \<noteq> Returns True then failure_events VERIFYING a
            else StateChange VERIFYING SUCCESS # completion_event True a @
                 [StateChange SUCCESS SCHEDULED])))"

text \<open>Further phases and objects of the examples.\<close>

definition all_succeed :: phases where
  "all_succeed =
     \<lparr> check_prerequisites = Returns True, execute = Returns True,
       verify_completion = Returns True \<rparr>"

definition prerequisites_not_met :: phases where
  "prerequisites_not_met =
     \<lparr> check_prerequisites = Returns False, execute = Returns True,
       verify_completion = Returns True \<rparr>"

definition observed_A :: activity where
  "observed_A = task_A\<lparr>on_state_change := True, on_execution_complete := True\<rparr>"

definition scheduler_A :: scheduler where
  "scheduler_A = register_activity 0 None (ActivityScheduler_init (\<lambda>r. task_A))"

text \<open>
  The invariant of the data model, an activity being reported due, and the sorting key of
  the selection.
\<close>

definition disabled_inv :: "activity \<Rightarrow> bool" where
  "disabled_inv a = (state a = DISABLED \<longrightarrow> \<not> enabled (config a))"

definition due :: "int \<Rightarrow> scheduler \<Rightarrow> ref \<Rightarrow> bool" where
  "due now s r = fst (is_due now (objects s r))"

definition prio :: "scheduler \<Rightarrow> ref \<Rightarrow> int" where
  "prio s r = priority (config (objects s r))"

text \<open>
  Two tasks that differ in priority: the one of priority 7 is registered first (as object 2), the one
  of priority 2 second (as object 3).
\<close>

definition task_p7 :: activity where
  "task_p7 = Activity_init ''Gather'' (scenario_config\<lparr>priority := 7\<rparr>)"

definition task_p2 :: activity where
  "task_p2 = Activity_init ''Shield'' (scenario_config\<lparr>priority := 2\<rparr>)"

definition scheduler_7_2 :: scheduler where
  "scheduler_7_2 =
     register_activity 3 None
       (register_activity 2 None
         (ActivityScheduler_init (\<lambda>r. if r = 2 then task_p7 else task_p2)))"





text \<open>Task A after the two failures of the example.\<close>

definition disabled_A :: activity where
  "disabled_A =
     run_all [(execute_fails, clock_at 0), (execute_fails, clock_at 300000000)] task_A"

section \<open>Properties\<close>

lemma run_with_timeout_iff: "run_with_timeout x \<longleftrightarrow> x = Returns True"
  by (cases x) (auto simp: run_with_timeout_def)

lemma change_state_fields [simp]:
  "state (change_state n a) = n"
  "config (change_state n a) = config a"
  "name (change_state n a) = name a"
  "last_execution (change_state n a) = last_execution a"
  "next_execution (change_state n a) = next_execution a"
  "retry_count (change_state n a) = retry_count a"
  "total_executions (change_state n a) = total_executions a"
  "successful_executions (change_state n a) = successful_executions a"
  "failed_executions (change_state n a) = failed_executions a"
  "total_execution_time_seconds (change_state n a) = total_execution_time_seconds a"
  "average_execution_time_seconds (change_state n a) = average_execution_time_seconds a"
  "on_state_change (change_state n a) = on_state_change a"
  "on_execution_complete (change_state n a) = on_execution_complete a"
  by (simp_all add: change_state_def Let_def)

lemma notify_complete_fields [simp]:
  "state (notify_complete b a) = state a"
  "config (notify_complete b a) = config a"
  "name (notify_complete b a) = name a"
  "last_execution (notify_complete b a) = last_execution a"
  "next_execution (notify_complete b a) = next_execution a"
  "retry_count (notify_complete b a) = retry_count a"
  "total_executions (notify_complete b a) = total_executions a"
  "successful_executions (notify_complete b a) = successful_executions a"
  "failed_executions (notify_complete b a) = failed_executions a"
  "total_execution_time_seconds (notify_complete b a) = total_execution_time_seconds a"
  "average_execution_time_seconds (notify_complete b a) = average_execution_time_seconds a"
  "on_state_change (notify_complete b a) = on_state_change a"
  "on_execution_complete (notify_complete b a) = on_execution_complete a"
  by (simp_all add: notify_complete_def)

lemma handle_failure_fields [simp]:
  "state (handle_failure now a) =
     (if int (retry_count a) + 1 \<ge> max_retries (config a) then DISABLED else state a)"
  "config (handle_failure now a) =
     (if int (retry_count a) + 1 \<ge> max_retries (config a)
      then (config a)\<lparr>enabled := False\<rparr> else config a)"
  "name (handle_failure now a) = name a"
  "last_execution (handle_failure now a) = last_execution a"
  "next_execution (handle_failure now a) =
     (if int (retry_count a) + 1 \<ge> max_retries (config a) then next_execution a
      else Some (now + timedelta 0 (retry_delay_minutes (config a))))"
  "retry_count (handle_failure now a) = retry_count a + 1"
  "total_executions (handle_failure now a) = total_executions a + 1"
  "successful_executions (handle_failure now a) = successful_executions a"
  "failed_executions (handle_failure now a) = failed_executions a + 1"
  "total_execution_time_seconds (handle_failure now a) = total_execution_time_seconds a"
  "average_execution_time_seconds (handle_failure now a) = average_execution_time_seconds a"
  "on_state_change (handle_failure now a) = on_state_change a"
  "on_execution_complete (handle_failure now a) = on_execution_complete a"
  by (simp_all add: handle_failure_def Let_def)

lemma run_body_failing:
  assumes "failing ph"
  shows "\<exists>b. run_body ph clk a = (False, handle_failure (handled_at clk) b) \<and>
             config b = config a \<and> retry_count b = retry_count a \<and>
             total_executions b = total_executions a \<and>
             failed_executions b = failed_executions a \<and>
             next_execution b = next_execution a \<and> last_execution b = last_execution a \<and>
             successful_executions b = successful_executions a \<and> state b \<noteq> DISABLED"
proof (cases "execute ph = Returns True")
  case True
  with assms have "verify_completion ph \<noteq> Returns True" "check_prerequisites ph = Returns True"
    by (simp_all add: failing_def)
  with True have "run_body ph clk a =
      (False, handle_failure (handled_at clk)
         (change_state VERIFYING (change_state EXECUTING (change_state READY (change_state CHECKING a)))))"
    by (simp add: run_body_def run_with_timeout_iff Let_def)
  then show ?thesis
    by (intro exI[of _ "change_state VERIFYING (change_state EXECUTING
          (change_state READY (change_state CHECKING a)))"]) simp
next
  case False
  with assms have "check_prerequisites ph = Returns True"
    by (simp_all add: failing_def)
  with False have "run_body ph clk a =
      (False, handle_failure (handled_at clk)
         (change_state EXECUTING (change_state READY (change_state CHECKING a))))"
    by (simp add: run_body_def run_with_timeout_iff Let_def)
  then show ?thesis
    by (intro exI[of _ "change_state EXECUTING
          (change_state READY (change_state CHECKING a))"]) simp
qed

lemma run_failing_retry:
  assumes "failing ph" and "int (retry_count a) + 1 < max_retries (config a)"
  shows "fst (run ph clk a) = False"
    and "state (snd (run ph clk a)) = SCHEDULED"
    and "config (snd (run ph clk a)) = config a"
    and "retry_count (snd (run ph clk a)) = retry_count a + 1"
    and "total_executions (snd (run ph clk a)) = total_executions a + 1"
    and "failed_executions (snd (run ph clk a)) = failed_executions a + 1"
    and "next_execution (snd (run ph clk a)) =
           Some (handled_at clk + timedelta 0 (retry_delay_minutes (config a)))"
proof -
  from run_body_failing[OF assms(1), of clk a] obtain b where
    b: "run_body ph clk a = (False, handle_failure (handled_at clk) b)"
       "config b = config a" "retry_count b = retry_count a"
       "total_executions b = total_executions a" "failed_executions b = failed_executions a"
       "next_execution b = next_execution a" "state b \<noteq> DISABLED"
    by blast
  show "fst (run ph clk a) = False" using b by (simp add: run_def)
  show "state (snd (run ph clk a)) = SCHEDULED" using b assms(2) by (simp add: run_def)
  show "config (snd (run ph clk a)) = config a" using b assms(2) by (simp add: run_def)
  show "retry_count (snd (run ph clk a)) = retry_count a + 1" using b by (simp add: run_def)
  show "total_executions (snd (run ph clk a)) = total_executions a + 1" using b by (simp add: run_def)
  show "failed_executions (snd (run ph clk a)) = failed_executions a + 1" using b by (simp add: run_def)
  show "next_execution (snd (run ph clk a)) =
           Some (handled_at clk + timedelta 0 (retry_delay_minutes (config a)))"
    using b assms(2) by (simp add: run_def)
qed

lemma run_failing_disable:
  assumes "failing ph" and "int (retry_count a) + 1 \<ge> max_retries (config a)"
  shows "fst (run ph clk a) = False"
    and "state (snd (run ph clk a)) = DISABLED"
    and "config (snd (run ph clk a)) = (config a)\<lparr>enabled := False\<rparr>"
    and "retry_count (snd (run ph clk a)) = retry_count a + 1"
    and "total_executions (snd (run ph clk a)) = total_executions a + 1"
    and "failed_executions (snd (run ph clk a)) = failed_executions a + 1"
    and "next_execution (snd (run ph clk a)) = next_execution a"
proof -
  from run_body_failing[OF assms(1), of clk a] obtain b where
    b: "run_body ph clk a = (False, handle_failure (handled_at clk) b)"
       "config b = config a" "retry_count b = retry_count a"
       "total_executions b = total_executions a" "failed_executions b = failed_executions a"
       "next_execution b = next_execution a" "state b \<noteq> DISABLED"
    by blast
  show "fst (run ph clk a) = False" using b by (simp add: run_def)
  show "state (snd (run ph clk a)) = DISABLED" using b assms(2) by (simp add: run_def)
  show "config (snd (run ph clk a)) = (config a)\<lparr>enabled := False\<rparr>" using b assms(2) by (simp add: run_def)
  show "retry_count (snd (run ph clk a)) = retry_count a + 1" using b by (simp add: run_def)
  show "total_executions (snd (run ph clk a)) = total_executions a + 1" using b by (simp add: run_def)
  show "failed_executions (snd (run ph clk a)) = failed_executions a + 1" using b by (simp add: run_def)
  show "next_execution (snd (run ph clk a)) = next_execution a"
    using b assms(2) by (simp add: run_def)
qed







lemma callback_log_change_state:
  "callback_log (change_state n a) =
     callback_log a @ (if on_state_change a \<and> state a \<noteq> n then [StateChange (state a) n] else [])"
  by (simp add: change_state_def Let_def)

lemma callback_log_notify_complete:
  "callback_log (notify_complete b a) = callback_log a @ completion_event b a"
  by (simp add: notify_complete_def completion_event_def)

lemma callback_log_handle_failure:
  "callback_log (handle_failure now a) =
     callback_log a @
     (if int (retry_count a) + 1 \<ge> max_retries (config a) \<and> on_state_change a \<and> state a \<noteq> DISABLED
      then [StateChange (state a) DISABLED] else []) @
     completion_event False a"
  by (simp add: handle_failure_def Let_def callback_log_notify_complete callback_log_change_state
      completion_event_def)

lemma handle_success_fields [simp]:
  "state (handle_success et now a) = state a"
  "config (handle_success et now a) = config a"
  "name (handle_success et now a) = name a"
  "last_execution (handle_success et now a) = Some now"
  "retry_count (handle_success et now a) = 0"
  "total_executions (handle_success et now a) = total_executions a + 1"
  "successful_executions (handle_success et now a) = successful_executions a + 1"
  "failed_executions (handle_success et now a) = failed_executions a"
  "on_state_change (handle_success et now a) = on_state_change a"
  "on_execution_complete (handle_success et now a) = on_execution_complete a"
  by (simp_all add: handle_success_def Let_def)

lemma callback_log_handle_success:
  "callback_log (handle_success et now a) = callback_log a @ completion_event True a"
  by (simp add: handle_success_def Let_def callback_log_notify_complete completion_event_def)

lemma run_body_skip:
  "check_prerequisites ph \<noteq> Returns True \<Longrightarrow>
   run_body ph clk a = (False, change_state SCHEDULED (change_state CHECKING a))"
  by (simp add: run_body_def run_with_timeout_iff Let_def)

lemma run_body_execute_fails:
  "check_prerequisites ph = Returns True \<Longrightarrow> execute ph \<noteq> Returns True \<Longrightarrow>
   run_body ph clk a =
     (False, handle_failure (handled_at clk)
        (change_state EXECUTING (change_state READY (change_state CHECKING a))))"
  by (simp add: run_body_def run_with_timeout_iff Let_def)

lemma run_body_verify_fails:
  "check_prerequisites ph = Returns True \<Longrightarrow> execute ph = Returns True \<Longrightarrow>
   verify_completion ph \<noteq> Returns True \<Longrightarrow>
   run_body ph clk a =
     (False, handle_failure (handled_at clk)
        (change_state VERIFYING
          (change_state EXECUTING (change_state READY (change_state CHECKING a)))))"
  by (simp add: run_body_def run_with_timeout_iff Let_def)

lemma run_body_success:
  "check_prerequisites ph = Returns True \<Longrightarrow> execute ph = Returns True \<Longrightarrow>
   verify_completion ph = Returns True \<Longrightarrow>
   run_body ph clk a =
     (True, handle_success (total_seconds (execution_end clk - execution_start clk))
        (handled_at clk)
        (change_state SUCCESS (change_state VERIFYING
          (change_state EXECUTING (change_state READY (change_state CHECKING a))))))"
  by (simp add: run_body_def run_with_timeout_iff Let_def)

lemma run_result:
  "fst (run ph clk a) \<longleftrightarrow>
     check_prerequisites ph = Returns True \<and> execute ph = Returns True \<and>
     verify_completion ph = Returns True"
proof (cases "check_prerequisites ph = Returns True")
  case False
  then show ?thesis by (simp add: run_def run_body_skip)
next
  case c: True
  show ?thesis
  proof (cases "execute ph = Returns True")
    case False
    with c show ?thesis by (simp add: run_def run_body_execute_fails)
  next
    case e: True
    show ?thesis
    proof (cases "verify_completion ph = Returns True")
      case False
      with c e show ?thesis by (simp add: run_def run_body_verify_fails)
    next
      case True
      with c e show ?thesis by (simp add: run_def run_body_success)
    qed
  qed
qed


lemma run_new_events:
  assumes "on_state_change a"
  shows "callback_log (snd (run ph clk a)) = callback_log a @ run_events ph a"
proof (cases "check_prerequisites ph = Returns True")
  case False
  then show ?thesis using assms
    by (simp add: run_def run_body_skip run_events_def callback_log_change_state)
next
  case c: True
  show ?thesis
  proof (cases "execute ph = Returns True")
    case False
    with c show ?thesis using assms
      by (simp add: run_def run_body_execute_fails run_events_def callback_log_change_state
          callback_log_handle_failure failure_events_def completion_event_def)
  next
    case e: True
    show ?thesis
    proof (cases "verify_completion ph = Returns True")
      case False
      with c e show ?thesis using assms
        by (simp add: run_def run_body_verify_fails run_events_def callback_log_change_state
          callback_log_handle_failure failure_events_def completion_event_def)
    next
      case True
      with c e show ?thesis using assms
        by (simp add: run_def run_body_success run_events_def callback_log_change_state
          callback_log_handle_success completion_event_def)
    qed
  qed
qed

lemma new_events_run:
  "on_state_change a \<Longrightarrow> new_events a (snd (run ph clk a)) = run_events ph a"
  by (simp add: new_events_def run_new_events)





text \<open>
  Claim C3. The claim is that a run whose execution or verification fails passes through
  the state \<open>FAILED\<close>. The code never assigns \<open>FAILED\<close>: no call of \<^verbatim>\<open>run()\<close> makes the
  state-change callback see a change to \<open>FAILED\<close>, the state at the end of the \<^verbatim>\<open>try\<close>
  block is not \<open>FAILED\<close>, and after the call the state is \<open>SCHEDULED\<close> or \<open>DISABLED\<close>.
\<close>

theorem run_never_enters_FAILED:
  assumes "on_state_change a"
  shows "(\<forall>old. StateChange old FAILED \<notin> set (new_events a (snd (run ph clk a)))) \<and>
         state (snd (run_body ph clk a)) \<noteq> FAILED \<and>
         state (snd (run ph clk a)) \<in> {SCHEDULED, DISABLED}"
proof (intro conjI allI)
  fix old
  show "StateChange old FAILED \<notin> set (new_events a (snd (run ph clk a)))"
    using assms
    by (auto simp: new_events_run run_events_def failure_events_def completion_event_def
        split: if_splits)
next
  show "state (snd (run_body ph clk a)) \<noteq> FAILED"
    by (cases "check_prerequisites ph = Returns True"; cases "execute ph = Returns True";
        cases "verify_completion ph = Returns True")
       (simp_all add: run_body_skip run_body_execute_fails run_body_verify_fails run_body_success)
next
  show "state (snd (run ph clk a)) \<in> {SCHEDULED, DISABLED}"
    by (cases "run_body ph clk a") (simp add: run_def)
qed

theorem run_never_enters_FAILED_witness:
  "on_state_change observed_A \<and> failing execute_fails \<and>
   new_events observed_A (snd (run execute_fails (clock_at 0) observed_A)) =
     [StateChange SCHEDULED CHECKING, StateChange CHECKING READY,
      StateChange READY EXECUTING, ExecutionComplete False,
      StateChange EXECUTING SCHEDULED] \<and>
   state (snd (run execute_fails (clock_at 0) observed_A)) = SCHEDULED \<and>
   StateChange EXECUTING FAILED \<notin>
     set (new_events observed_A (snd (run execute_fails (clock_at 0) observed_A)))"
proof -
  have o: "on_state_change observed_A"
    by (simp add: observed_A_def)
  have f: "failing execute_fails"
    by (simp add: failing_def execute_fails_def)
  have e: "new_events observed_A (snd (run execute_fails (clock_at 0) observed_A)) =
     [StateChange SCHEDULED CHECKING, StateChange CHECKING READY,
      StateChange READY EXECUTING, ExecutionComplete False,
      StateChange EXECUTING SCHEDULED]"
    by (simp add: new_events_run o run_events_def failure_events_def completion_event_def
        execute_fails_def observed_A_def task_A_def Activity_init_def scenario_config_def)
  have lim: "int (retry_count observed_A) + 1 < max_retries (config observed_A)"
    by (simp add: observed_A_def task_A_def Activity_init_def scenario_config_def)
  have st: "state (snd (run execute_fails (clock_at 0) observed_A)) = SCHEDULED"
    by (rule run_failing_retry(2) [OF f lim])
  show ?thesis
    using o f e st run_never_enters_FAILED [OF o, of execute_fails "clock_at 0"] by simp
qed

lemma run_skip:
  assumes "check_prerequisites ph \<noteq> Returns True"
  shows "run ph clk a = (False, change_state SCHEDULED (change_state CHECKING a))"
  using assms by (simp add: run_def run_body_skip change_state_def Let_def)

lemma skip_frame:
  "change_state SCHEDULED (change_state CHECKING a) =
     a\<lparr>state := SCHEDULED,
       callback_log := callback_log (change_state SCHEDULED (change_state CHECKING a))\<rparr>"
  by (simp add: change_state_def Let_def)

lemma skip_events:
  "ExecutionComplete b \<notin>
     set (new_events a (change_state SCHEDULED (change_state CHECKING a)))"
  by (simp add: new_events_def callback_log_change_state)

lemma execute_activity_fields:
  "objects (execute_activity ph clk r s) = (objects s)(r := snd (run ph clk (objects s r)))"
  "sched_total_executions (execute_activity ph clk r s) = sched_total_executions s + 1"
  "sched_successful_executions (execute_activity ph clk r s) =
     (if fst (run ph clk (objects s r)) then sched_successful_executions s + 1
      else sched_successful_executions s)"
  "sched_failed_executions (execute_activity ph clk r s) =
     (if fst (run ph clk (objects s r)) then sched_failed_executions s
      else sched_failed_executions s + 1)"
  "activities (execute_activity ph clk r s) = activities s"
  "activities_by_id (execute_activity ph clk r s) = activities_by_id s"
  "current_activity (execute_activity ph clk r s) = None"
  "started_threads (execute_activity ph clk r s) = started_threads s"
  by (simp_all add: execute_activity_def Let_def split_def)

text \<open>
  Claim C6, amended. When \<^verbatim>\<open>check_prerequisites()\<close> returns \<^verbatim>\<open>False\<close>, \<^verbatim>\<open>run()\<close> returns
  \<^verbatim>\<open>False\<close> and changes nothing of the task but its state, which ends \<open>SCHEDULED\<close>
  (with the state-change callbacks that go with it): every counter, \<open>retry_count\<close>,
  \<open>next_execution\<close> and \<open>last_execution\<close> are as before, and the completion callback is
  not called. When the scheduler drives that run, the task is unchanged in the same way,
  and the scheduler adds one to its own \<open>total_executions\<close> and \<open>failed_executions\<close>.
\<close>

theorem prerequisite_skip:
  assumes "check_prerequisites ph = Returns False"
  shows "run ph clk a = (False, change_state SCHEDULED (change_state CHECKING a)) \<and>
         snd (run ph clk a) =
           a\<lparr>state := SCHEDULED, callback_log := callback_log (snd (run ph clk a))\<rparr> \<and>
         (\<forall>b. ExecutionComplete b \<notin> set (new_events a (snd (run ph clk a)))) \<and>
         objects (execute_activity ph clk r s) r =
           (objects s r)\<lparr>state := SCHEDULED,
             callback_log := callback_log (objects (execute_activity ph clk r s) r)\<rparr> \<and>
         sched_total_executions (execute_activity ph clk r s) = sched_total_executions s + 1 \<and>
         sched_failed_executions (execute_activity ph clk r s) = sched_failed_executions s + 1 \<and>
         sched_successful_executions (execute_activity ph clk r s) =
           sched_successful_executions s"
proof -
  from assms have n: "check_prerequisites ph \<noteq> Returns True" by simp
  have r: "\<And>x. run ph clk x = (False, change_state SCHEDULED (change_state CHECKING x))"
    by (rule run_skip [OF n])
  show ?thesis
  proof (intro conjI allI)
    show "run ph clk a = (False, change_state SCHEDULED (change_state CHECKING a))"
      by (rule r)
    show "snd (run ph clk a) =
        a\<lparr>state := SCHEDULED, callback_log := callback_log (snd (run ph clk a))\<rparr>"
      using skip_frame [of a] by (simp add: r)
    show "ExecutionComplete b \<notin> set (new_events a (snd (run ph clk a)))" for b
      by (simp add: r skip_events)
    show "objects (execute_activity ph clk r s) r =
        (objects s r)\<lparr>state := SCHEDULED,
          callback_log := callback_log (objects (execute_activity ph clk r s) r)\<rparr>"
      using skip_frame [of "objects s r"] by (simp add: execute_activity_fields r)
    show "sched_total_executions (execute_activity ph clk r s) = sched_total_executions s + 1"
      by (simp add: execute_activity_fields)
    show "sched_failed_executions (execute_activity ph clk r s) = sched_failed_executions s + 1"
      by (simp add: execute_activity_fields r)
    show "sched_successful_executions (execute_activity ph clk r s) =
        sched_successful_executions s"
      by (simp add: execute_activity_fields r)
  qed
qed

lemma scheduler_A_fields:
  "activities scheduler_A = [0]"
  "objects scheduler_A 0 = observed_A"
  "sched_failed_executions scheduler_A = 0"
  "sched_total_executions scheduler_A = 0"
  "current_activity scheduler_A = None"
  by (simp_all add: scheduler_A_def register_activity_def ActivityScheduler_init_def Let_def
      observed_A_def)

theorem prerequisite_skip_witness:
  "check_prerequisites prerequisites_not_met = Returns False \<and>
   run prerequisites_not_met (clock_at 0) observed_A =
     (False, change_state SCHEDULED (change_state CHECKING observed_A)) \<and>
   total_executions (snd (run prerequisites_not_met (clock_at 0) observed_A)) = 0 \<and>
   sched_failed_executions
     (execute_activity prerequisites_not_met (clock_at 0) 0 scheduler_A) = 1"
proof -
  have h: "check_prerequisites prerequisites_not_met = Returns False"
    by (simp add: prerequisites_not_met_def)
  have t: "total_executions observed_A = 0"
    by (simp add: observed_A_def task_A_def Activity_init_def)
  show ?thesis
    using h t prerequisite_skip [OF h, of "clock_at 0" observed_A 0 scheduler_A]
    by (simp add: scheduler_A_fields)
qed

text \<open>
  The claim C6 as stated fails: the scheduler counts a run skipped for its prerequisites
  in its aggregate \<open>failed_executions\<close>.
\<close>

theorem prerequisite_skip_counted_by_scheduler:
  "check_prerequisites prerequisites_not_met = Returns False \<and>
   sched_failed_executions scheduler_A = 0 \<and>
   sched_failed_executions
     (execute_activity prerequisites_not_met (clock_at 0) 0 scheduler_A) = 1"
proof -
  have n: "check_prerequisites prerequisites_not_met \<noteq> Returns True"
    by (simp add: prerequisites_not_met_def)
  have h: "check_prerequisites prerequisites_not_met = Returns False"
    by (simp add: prerequisites_not_met_def)
  show ?thesis
    using h by (simp add: execute_activity_fields run_skip [OF n] scheduler_A_fields)
qed

lemma is_due_fields [simp]:
  "state (snd (is_due now a)) = state a"
  "config (snd (is_due now a)) = config a"
  "name (snd (is_due now a)) = name a"
  "last_execution (snd (is_due now a)) = last_execution a"
  "retry_count (snd (is_due now a)) = retry_count a"
  "total_executions (snd (is_due now a)) = total_executions a"
  "successful_executions (snd (is_due now a)) = successful_executions a"
  "failed_executions (snd (is_due now a)) = failed_executions a"
  "on_state_change (snd (is_due now a)) = on_state_change a"
  "on_execution_complete (snd (is_due now a)) = on_execution_complete a"
  "callback_log (snd (is_due now a)) = callback_log a"
  by (simp_all add: is_due_def Let_def split: option.splits)

lemma is_due_blocked:
  "\<not> enabled (config a) \<or> state a = DISABLED \<Longrightarrow> is_due now a = (False, a)"
  by (auto simp: is_due_def)

lemma is_due_idem:
  "is_due now (snd (is_due now a)) = is_due now a"
  by (simp add: is_due_def Let_def split: option.splits)

lemma is_due_known:
  "enabled (config a) \<Longrightarrow> state a \<noteq> DISABLED \<Longrightarrow> next_execution a = Some t \<Longrightarrow>
   is_due now a = (t \<le> now, a)"
  by (simp add: is_due_def)

lemma find_due_eq:
  "find_due now rs objs =
     (filter (\<lambda>r. fst (is_due now (objs r))) rs,
      (\<lambda>r. if r \<in> set rs then snd (is_due now (objs r)) else objs r))"
proof (induction rs arbitrary: objs)
  case Nil
  show ?case by simp
next
  case (Cons r rs)
  show ?case
  proof (cases "\<not> enabled (config (objs r)) \<or> state (objs r) = DISABLED")
    case True
    then have b: "is_due now (objs r) = (False, objs r)" by (rule is_due_blocked)
    from True have "find_due now (r # rs) objs = find_due now rs objs" by auto
    also have "\<dots> = (filter (\<lambda>r. fst (is_due now (objs r))) rs,
      (\<lambda>x. if x \<in> set rs then snd (is_due now (objs x)) else objs x))"
      by (rule Cons.IH)
    also have "\<dots> = (filter (\<lambda>r. fst (is_due now (objs r))) (r # rs),
      (\<lambda>x. if x \<in> set (r # rs) then snd (is_due now (objs x)) else objs x))"
      using b by (auto simp: fun_eq_iff)
    finally show ?thesis .
  next
    case False
    define a' where "a' = snd (is_due now (objs r))"
    define objs1 where "objs1 = objs(r := a')"
    have fst_eq: "fst (is_due now (objs1 x)) = fst (is_due now (objs x))" for x
      by (simp add: objs1_def a'_def is_due_idem)
    have snd_eq: "snd (is_due now (objs1 x)) = snd (is_due now (objs x))" for x
      by (simp add: objs1_def a'_def is_due_idem)
    from False have step: "find_due now (r # rs) objs =
        (if fst (is_due now (objs r)) then r # fst (find_due now rs objs1)
         else fst (find_due now rs objs1),
         snd (find_due now rs objs1))"
      by (simp add: split_def objs1_def a'_def Let_def)
    have ih: "find_due now rs objs1 = (filter (\<lambda>r. fst (is_due now (objs r))) rs,
      (\<lambda>x. if x \<in> set rs then snd (is_due now (objs x)) else objs1 x))"
      by (simp add: Cons.IH [of objs1] fst_eq snd_eq cong: if_cong)
    have heap: "(\<lambda>x. if x \<in> set rs then snd (is_due now (objs x)) else objs1 x) =
        (\<lambda>x. if x \<in> set (r # rs) then snd (is_due now (objs x)) else objs x)"
      by (auto simp: fun_eq_iff objs1_def a'_def)
    show ?thesis
      by (simp only: step ih fst_conv snd_conv heap) simp
  qed
qed

lemma selection_objects:
  "objects (snd (get_next_due_activity now s)) =
     (\<lambda>r. if r \<in> set (activities s) then snd (is_due now (objects s r)) else objects s r)"
  by (simp add: get_next_due_activity_def find_due_eq Let_def split: list.splits)

lemma selection_other_fields:
  "activities (snd (get_next_due_activity now s)) = activities s"
  "activities_by_id (snd (get_next_due_activity now s)) = activities_by_id s"
  "current_activity (snd (get_next_due_activity now s)) = current_activity s"
  "sched_total_executions (snd (get_next_due_activity now s)) = sched_total_executions s"
  "sched_successful_executions (snd (get_next_due_activity now s)) =
     sched_successful_executions s"
  "sched_failed_executions (snd (get_next_due_activity now s)) = sched_failed_executions s"
  "started_threads (snd (get_next_due_activity now s)) = started_threads s"
  by (simp_all add: get_next_due_activity_def find_due_eq Let_def split: list.splits)

lemma selection_key:
  "(\<lambda>r. priority (config
      ((if r \<in> set (activities s) then snd (is_due now (objects s r)) else objects s r)))) =
   prio s"
  by (auto simp: fun_eq_iff prio_def)

lemma selection_eq:
  "fst (get_next_due_activity now s) =
     (case sort_key (prio s) (filter (due now s) (activities s)) of
        [] \<Rightarrow> None
      | next_activity # _ \<Rightarrow> Some next_activity)"
proof -
  have d: "(\<lambda>r. fst (is_due now (objects s r))) = due now s"
    by (simp add: fun_eq_iff due_def)
  show ?thesis
    by (simp add: get_next_due_activity_def find_due_eq Let_def selection_key d
        split: list.splits)
qed

lemma sort_key_head:
  assumes "sort_key f xs = y # ys"
  shows "y \<in> set xs" and "\<forall>x \<in> set xs. f y \<le> f x"
    and "hd (filter (\<lambda>x. f x = f y) xs) = y"
proof -
  have "set (sort_key f xs) = set xs" by simp
  with assms have s: "set xs = insert y (set ys)" by simp
  then show "y \<in> set xs" by simp
  have "sorted (map f (sort_key f xs))" by (rule sorted_sort_key)
  with assms have "\<forall>x \<in> set ys. f y \<le> f x" by simp
  with s show "\<forall>x \<in> set xs. f y \<le> f x" by simp
  have "filter (\<lambda>x. f x = f y) xs = filter (\<lambda>x. f x = f y) (sort_key f xs)"
    by (rule sort_key_stable [symmetric])
  with assms show "hd (filter (\<lambda>x. f x = f y) xs) = y" by simp
qed

lemma selection_None:
  "fst (get_next_due_activity now s) = None \<longleftrightarrow> (\<forall>x \<in> set (activities s). \<not> due now s x)"
proof -
  have "sort_key (prio s) (filter (due now s) (activities s)) = [] \<longleftrightarrow>
      filter (due now s) (activities s) = []"
    by (metis length_sort length_0_conv)
  then show ?thesis
    by (auto simp: selection_eq filter_empty_conv split: list.splits)
qed

lemma selection_Some:
  assumes "fst (get_next_due_activity now s) = Some r"
  shows "r \<in> set (activities s)" and "due now s r"
    and "\<forall>x \<in> set (activities s). due now s x \<longrightarrow> prio s r \<le> prio s x"
    and "hd (filter (\<lambda>x. due now s x \<and> prio s x = prio s r) (activities s)) = r"
proof -
  from assms obtain ys where
    srt: "sort_key (prio s) (filter (due now s) (activities s)) = r # ys"
    by (auto simp: selection_eq split: list.splits)
  note h = sort_key_head [OF srt]
  from h(1) show "r \<in> set (activities s)" and "due now s r" by simp_all
  from h(2) show "\<forall>x \<in> set (activities s). due now s x \<longrightarrow> prio s r \<le> prio s x" by simp
  from h(3) show "hd (filter (\<lambda>x. due now s x \<and> prio s x = prio s r) (activities s)) = r"
    by (simp add: conj_commute)
qed

lemma selection_lowest:
  assumes "x \<in> set (activities s)" and "due now s x"
    and "\<forall>y \<in> set (activities s). y \<noteq> x \<and> due now s y \<longrightarrow> prio s x < prio s y"
  shows "fst (get_next_due_activity now s) = Some x"
proof -
  from assms(1,2) have "fst (get_next_due_activity now s) \<noteq> None"
    by (auto simp: selection_None)
  then obtain r where r: "fst (get_next_due_activity now s) = Some r" by auto
  from selection_Some [OF r] assms(1,2) have "r \<in> set (activities s)" "due now s r"
    "prio s r \<le> prio s x" by auto
  with assms(3) have "r = x" by force
  with r show ?thesis by simp
qed

lemma is_due_persists:
  "fst (is_due now a) \<Longrightarrow> now \<le> now' \<Longrightarrow> fst (is_due now' (snd (is_due now a)))"
  by (auto simp: is_due_def Let_def split: option.splits if_splits)

lemma step_objects_other:
  assumes "fst (get_next_due_activity now s) = Some r" and "x \<noteq> r"
  shows "objects (scheduler_loop_step now env clk s) x =
         objects (snd (get_next_due_activity now s)) x"
proof -
  obtain s' where g: "get_next_due_activity now s = (Some r, s')"
    using assms(1) by (cases "get_next_due_activity now s") simp
  show ?thesis
    using assms(2) by (simp add: scheduler_loop_step_def g execute_activity_fields)
qed

lemma step_remains_due:
  assumes "fst (get_next_due_activity now s) = Some r" and "x \<noteq> r"
    and "x \<in> set (activities s)" and "due now s x" and "now \<le> now'"
  shows "due now' (scheduler_loop_step now env clk s) x"
proof -
  have "objects (scheduler_loop_step now env clk s) x = snd (is_due now (objects s x))"
    using step_objects_other [OF assms(1,2)] assms(3) by (simp add: selection_objects)
  then show ?thesis
    using assms(4,5) by (simp add: due_def is_due_persists)
qed

text \<open>
  Claim C7, amended. On each iteration of the loop the scheduler selects, among the
  registered tasks that are enabled, not \<open>DISABLED\<close> and due, the one with the lowest
  priority number, the earliest registered among equals (none when no task is due), and
  executes only that one: every other task is left as the due-check left it, and one
  that was due stays due at any later time. A task that is due is selected when every
  other due task has a strictly greater priority number; so the task of priority 7 is
  selected on the iteration after the task of priority 2 only if that task is no longer
  due then.
\<close>

theorem priority_selection:
  "(fst (get_next_due_activity now s) = None \<longleftrightarrow>
      (\<forall>x \<in> set (activities s). \<not> due now s x)) \<and>
   (fst (get_next_due_activity now s) = Some r \<longrightarrow>
      r \<in> set (activities s) \<and> due now s r \<and>
      (\<forall>x \<in> set (activities s). due now s x \<longrightarrow> prio s r \<le> prio s x) \<and>
      hd (filter (\<lambda>x. due now s x \<and> prio s x = prio s r) (activities s)) = r \<and>
      (\<forall>x. x \<noteq> r \<longrightarrow>
         objects (scheduler_loop_step now env clk s) x =
           (if x \<in> set (activities s) then snd (is_due now (objects s x)) else objects s x)) \<and>
      (\<forall>x now'. x \<noteq> r \<and> x \<in> set (activities s) \<and> due now s x \<and> now \<le> now' \<longrightarrow>
         due now' (scheduler_loop_step now env clk s) x)) \<and>
   (z \<in> set (activities s) \<and> due now s z \<and>
    (\<forall>y \<in> set (activities s). y \<noteq> z \<and> due now s y \<longrightarrow> prio s z < prio s y) \<longrightarrow>
      fst (get_next_due_activity now s) = Some z)"
proof (intro conjI impI allI)
  show "fst (get_next_due_activity now s) = None \<longleftrightarrow>
      (\<forall>x \<in> set (activities s). \<not> due now s x)"
    by (rule selection_None)
next
  assume r: "fst (get_next_due_activity now s) = Some r"
  show "r \<in> set (activities s)" and "due now s r"
    and "\<forall>x \<in> set (activities s). due now s x \<longrightarrow> prio s r \<le> prio s x"
    and "hd (filter (\<lambda>x. due now s x \<and> prio s x = prio s r) (activities s)) = r"
    by (rule selection_Some [OF r])+
  show "objects (scheduler_loop_step now env clk s) x =
      (if x \<in> set (activities s) then snd (is_due now (objects s x)) else objects s x)"
    if "x \<noteq> r" for x
    using step_objects_other [OF r that] by (simp add: selection_objects)
  show "due now' (scheduler_loop_step now env clk s) x"
    if "x \<noteq> r \<and> x \<in> set (activities s) \<and> due now s x \<and> now \<le> now'" for x now'
    using that step_remains_due [OF r] by blast
next
  assume "z \<in> set (activities s) \<and> due now s z \<and>
    (\<forall>y \<in> set (activities s). y \<noteq> z \<and> due now s y \<longrightarrow> prio s z < prio s y)"
  then show "fst (get_next_due_activity now s) = Some z"
    using selection_lowest by blast
qed













lemma get_next_execution_time_Some:
  "last_execution a = Some l \<Longrightarrow>
   get_next_execution_time now a =
     (if truthy (start_time (config a)) \<or> truthy (end_time (config a))
      then adjust_for_time_window (config a)
             (l + timedelta (interval_hours (config a)) (interval_minutes (config a)))
      else l + timedelta (interval_hours (config a)) (interval_minutes (config a)))"
  by (simp add: get_next_execution_time_def Let_def)


lemma handle_success_next_execution:
  "next_execution (handle_success et now a) =
     Some (if truthy (start_time (config a)) \<or> truthy (end_time (config a))
           then adjust_for_time_window (config a)
                  (now + timedelta (interval_hours (config a)) (interval_minutes (config a)))
           else now + timedelta (interval_hours (config a)) (interval_minutes (config a)))"
  by (simp add: handle_success_def Let_def get_next_execution_time_Some)

lemma run_success_times:
  assumes "fst (run ph clk a)"
  shows "last_execution (snd (run ph clk a)) = Some (handled_at clk)"
    and "next_execution (snd (run ph clk a)) =
     Some (if truthy (start_time (config a)) \<or> truthy (end_time (config a))
           then adjust_for_time_window (config a)
                  (handled_at clk +
                   timedelta (interval_hours (config a)) (interval_minutes (config a)))
           else handled_at clk +
                timedelta (interval_hours (config a)) (interval_minutes (config a)))"
    and "state (snd (run ph clk a)) = SCHEDULED"
    and "config (snd (run ph clk a)) = config a"
proof -
  from assms have p: "check_prerequisites ph = Returns True" "execute ph = Returns True"
    "verify_completion ph = Returns True"
    by (simp_all add: run_result)
  note b = run_body_success [OF p, of clk a]
  show "last_execution (snd (run ph clk a)) = Some (handled_at clk)"
    by (simp add: run_def b)
  show "next_execution (snd (run ph clk a)) =
     Some (if truthy (start_time (config a)) \<or> truthy (end_time (config a))
           then adjust_for_time_window (config a)
                  (handled_at clk +
                   timedelta (interval_hours (config a)) (interval_minutes (config a)))
           else handled_at clk +
                timedelta (interval_hours (config a)) (interval_minutes (config a)))"
    by (simp add: run_def b handle_success_next_execution)
  show "state (snd (run ph clk a)) = SCHEDULED"
    by (simp add: run_def b)
  show "config (snd (run ph clk a)) = config a"
    by (simp add: run_def b)
qed






lemma all_succeed_result: "fst (run all_succeed clk a)"
  by (simp add: run_result all_succeed_def)



lemma enable_fields [simp]:
  "state (enable a) = SCHEDULED"
  "config (enable a) = (config a)\<lparr>enabled := True\<rparr>"
  "name (enable a) = name a"
  "last_execution (enable a) = last_execution a"
  "next_execution (enable a) = next_execution a"
  "retry_count (enable a) = 0"
  "total_executions (enable a) = total_executions a"
  "successful_executions (enable a) = successful_executions a"
  "failed_executions (enable a) = failed_executions a"
  by (simp_all add: enable_def Let_def)




lemma step_activities:
  "activities (scheduler_loop_step now env clk s) = activities s"
proof (cases "get_next_due_activity now s")
  case (Pair sel s')
  then have "activities s' = activities s"
    using selection_other_fields(1) [of now s] by simp
  with Pair show ?thesis
    by (cases sel) (simp_all add: scheduler_loop_step_def execute_activity_fields)
qed

lemma step_objects_selected:
  assumes "fst (get_next_due_activity now s) = Some r"
  shows "objects (scheduler_loop_step now env clk s) r =
         snd (run (env r) clk (snd (is_due now (objects s r))))"
proof -
  obtain s' where g: "get_next_due_activity now s = (Some r, s')"
    using assms by (cases "get_next_due_activity now s") simp
  have "objects s' r = snd (is_due now (objects s r))"
    using selection_objects [of now s] selection_Some(1) [OF assms] by (simp add: g)
  then show ?thesis
    by (simp add: scheduler_loop_step_def g execute_activity_fields)
qed

lemma due_iff:
  "enabled (config (objects s r)) \<Longrightarrow> state (objects s r) \<noteq> DISABLED \<Longrightarrow>
   next_execution (objects s r) = Some t \<Longrightarrow> due now s r = (t \<le> now)"
  by (simp add: due_def is_due_known)

lemma scheduler_7_2_fields:
  "activities scheduler_7_2 = [2, 3]"
  "objects scheduler_7_2 2 = task_p7\<lparr>on_state_change := True, on_execution_complete := True\<rparr>"
  "objects scheduler_7_2 3 = task_p2\<lparr>on_state_change := True, on_execution_complete := True\<rparr>"
  by (simp_all add: scheduler_7_2_def register_activity_def ActivityScheduler_init_def Let_def)

lemma scheduler_7_2_due:
  "due now scheduler_7_2 2" "due now scheduler_7_2 3"
  "prio scheduler_7_2 2 = 7" "prio scheduler_7_2 3 = 2"
  by (simp_all add: due_def prio_def scheduler_7_2_fields task_p7_def task_p2_def
      Activity_init_def scenario_config_def is_due_def get_next_execution_time_def)

lemma scheduler_7_2_first: "fst (get_next_due_activity 0 scheduler_7_2) = Some 3"
  by (rule selection_lowest) (simp_all add: scheduler_7_2_fields scheduler_7_2_due)

lemma task_p2_settled:
  "enabled (config (objects scheduler_7_2 3))"
  "state (objects scheduler_7_2 3) = SCHEDULED"
  "next_execution (snd (is_due 0 (objects scheduler_7_2 3))) = Some 0"
  "priority (config (objects scheduler_7_2 3)) = 2"
  "interval_hours (config (objects scheduler_7_2 3)) = 0"
  "interval_minutes (config (objects scheduler_7_2 3)) = 10"
  "\<not> truthy (start_time (config (objects scheduler_7_2 3)))"
  "\<not> truthy (end_time (config (objects scheduler_7_2 3)))"
  by (simp_all add: scheduler_7_2_fields task_p2_def Activity_init_def scenario_config_def
      is_due_def get_next_execution_time_def truthy_def)

theorem priority_selection_witness:
  "due 0 scheduler_7_2 2 \<and> due 0 scheduler_7_2 3 \<and>
   prio scheduler_7_2 2 = 7 \<and> prio scheduler_7_2 3 = 2 \<and>
   fst (get_next_due_activity 0 scheduler_7_2) = Some 3 \<and>
   due 10000000 (scheduler_loop_step 0 (\<lambda>r. all_succeed) (clock_at 0) scheduler_7_2) 2 \<and>
   \<not> due 10000000 (scheduler_loop_step 0 (\<lambda>r. all_succeed) (clock_at 0) scheduler_7_2) 3 \<and>
   fst (get_next_due_activity 10000000
     (scheduler_loop_step 0 (\<lambda>r. all_succeed) (clock_at 0) scheduler_7_2)) = Some 2"
proof -
  define s1 where "s1 = scheduler_loop_step 0 (\<lambda>r. all_succeed) (clock_at 0) scheduler_7_2"
  note T = priority_selection [of 0 scheduler_7_2 3 "\<lambda>r. all_succeed" "clock_at 0" 3]
  have first: "fst (get_next_due_activity 0 scheduler_7_2) = Some 3"
    using T by (simp add: scheduler_7_2_fields scheduler_7_2_due)
  have d0: "due 10000000 s1 2"
    using T first unfolding s1_def
    by (simp add: scheduler_7_2_fields scheduler_7_2_due)
  have o1: "objects s1 3 =
      snd (run all_succeed (clock_at 0) (snd (is_due 0 (objects scheduler_7_2 3))))"
    unfolding s1_def by (rule step_objects_selected [OF first])
  have "enabled (config (objects s1 3))" "state (objects s1 3) \<noteq> DISABLED"
    "next_execution (objects s1 3) = Some 600000000"
    by (simp_all add: o1 run_success_times [OF all_succeed_result] task_p2_settled
        clock_at_def timedelta_def usec_per_minute_def)
  then have d1: "\<not> due 10000000 s1 3"
    by (simp add: due_iff)
  have acts: "activities s1 = [2, 3]"
    unfolding s1_def by (simp add: step_activities scheduler_7_2_fields)
  note T1 = priority_selection [of 10000000 s1 2 "\<lambda>r. all_succeed" "clock_at 0" 2]
  have second: "fst (get_next_due_activity 10000000 s1) = Some 2"
    using T1 d0 d1 by (simp add: acts)
  show ?thesis
    using first d0 d1 second scheduler_7_2_due(1) [of 0] scheduler_7_2_due(2) [of 0]
      scheduler_7_2_due(3,4)
    unfolding s1_def by simp
qed

text \<open>
  The claim C7 as stated fails: when the prerequisites of the task of priority 2 are not
  met it stays due, and the next iteration selects it again although the task of
  priority 7 is still due.
\<close>

theorem selection_counterexample:
  "fst (get_next_due_activity 0 scheduler_7_2) = Some 3 \<and>
   prio scheduler_7_2 3 = 2 \<and> prio scheduler_7_2 2 = 7 \<and>
   due 10000000
     (scheduler_loop_step 0 (\<lambda>r. prerequisites_not_met) (clock_at 0) scheduler_7_2) 2 \<and>
   fst (get_next_due_activity 10000000
     (scheduler_loop_step 0 (\<lambda>r. prerequisites_not_met) (clock_at 0) scheduler_7_2)) = Some 3"
proof -
  define s1 where
    "s1 = scheduler_loop_step 0 (\<lambda>r. prerequisites_not_met) (clock_at 0) scheduler_7_2"
  note first = scheduler_7_2_first
  have d0: "due 10000000 s1 2"
    unfolding s1_def
    by (rule step_remains_due [OF first]) (simp_all add: scheduler_7_2_fields scheduler_7_2_due)
  have n: "check_prerequisites prerequisites_not_met \<noteq> Returns True"
    by (simp add: prerequisites_not_met_def)
  have o1: "objects s1 3 =
      snd (run prerequisites_not_met (clock_at 0) (snd (is_due 0 (objects scheduler_7_2 3))))"
    unfolding s1_def by (rule step_objects_selected [OF first])
  have "enabled (config (objects s1 3))" "state (objects s1 3) \<noteq> DISABLED"
    "next_execution (objects s1 3) = Some 0"
    by (simp_all add: o1 run_skip [OF n] task_p2_settled)
  then have d1: "due 10000000 s1 3"
    by (simp add: due_iff)
  have p1: "prio s1 3 = 2"
    by (simp add: prio_def o1 run_skip [OF n] task_p2_settled)
  have o0: "objects s1 2 = snd (is_due 0 (objects scheduler_7_2 2))"
    unfolding s1_def using step_objects_other [OF first, of 2]
    by (simp add: selection_objects scheduler_7_2_fields)
  have p0: "prio s1 2 = 7"
    using scheduler_7_2_due(3) by (simp add: prio_def o0)
  have acts: "activities s1 = [2, 3]"
    unfolding s1_def by (simp add: step_activities scheduler_7_2_fields)
  have second: "fst (get_next_due_activity 10000000 s1) = Some 3"
    by (rule selection_lowest) (simp_all add: acts d1 p0 p1)
  show ?thesis
    using first d0 second scheduler_7_2_due unfolding s1_def by simp
qed

lemma disable_fields [simp]:
  "state (disable a) = IDLE"
  "config (disable a) = (config a)\<lparr>enabled := False\<rparr>"
  by (simp_all add: disable_def)

lemma reset_statistics_fields [simp]:
  "state (reset_statistics a) = state a"
  "config (reset_statistics a) = config a"
  "next_execution (reset_statistics a) = next_execution a"
  "last_execution (reset_statistics a) = last_execution a"
  by (simp_all add: reset_statistics_def)

lemma force_run_now_fields [simp]:
  "state (force_run_now t a) = state a"
  "config (force_run_now t a) = config a"
  by (simp_all add: force_run_now_def)

lemma run_state_config:
  "(state (snd (run ph clk a)) = SCHEDULED \<and> config (snd (run ph clk a)) = config a) \<or>
   (state (snd (run ph clk a)) = DISABLED \<and>
    config (snd (run ph clk a)) = (config a)\<lparr>enabled := False\<rparr>)"
proof (cases "check_prerequisites ph = Returns True")
  case False
  then show ?thesis by (simp add: run_skip)
next
  case c: True
  show ?thesis
  proof (cases "execute ph = Returns True \<and> verify_completion ph = Returns True")
    case True
    with c have "fst (run ph clk a)" by (simp add: run_result)
    from run_success_times(3,4) [OF this] show ?thesis by simp
  next
    case False
    with c have f: "failing ph" by (auto simp: failing_def)
    show ?thesis
    proof (cases "int (retry_count a) + 1 < max_retries (config a)")
      case True
      from run_failing_retry(2,3) [OF f True] show ?thesis by simp
    next
      case False
      then have "int (retry_count a) + 1 \<ge> max_retries (config a)" by simp
      from run_failing_disable(2,3) [OF f this] show ?thesis by simp
    qed
  qed
qed

lemma run_disabled_inv: "disabled_inv (snd (run ph clk a))"
  using run_state_config [of ph clk a] by (auto simp: disabled_inv_def)

lemma run_keeps_not_enabled:
  "\<not> enabled (config a) \<Longrightarrow> \<not> enabled (config (snd (run ph clk a)))"
  using run_state_config [of ph clk a] by auto

lemma is_due_not_enabled: "\<not> enabled (config a) \<Longrightarrow> \<not> fst (is_due now a)"
  by (simp add: is_due_def)

lemma is_due_DISABLED: "state a = DISABLED \<Longrightarrow> \<not> fst (is_due now a)"
  by (simp add: is_due_def)

lemma selection_not_DISABLED:
  assumes "state (objects s r) = DISABLED"
  shows "fst (get_next_due_activity now s) \<noteq> Some r"
proof
  assume "fst (get_next_due_activity now s) = Some r"
  from selection_Some(2) [OF this] have "fst (is_due now (objects s r))"
    by (simp add: due_def)
  with is_due_DISABLED [OF assms] show False by simp
qed

lemma selection_not_enabled:
  assumes "\<not> enabled (config (objects s r))"
  shows "fst (get_next_due_activity now s) \<noteq> Some r"
proof
  assume "fst (get_next_due_activity now s) = Some r"
  from selection_Some(2) [OF this] have "fst (is_due now (objects s r))"
    by (simp add: due_def)
  with is_due_not_enabled [OF assms] show False by simp
qed

lemma selection_disabled_inv:
  assumes "\<forall>x. disabled_inv (objects s x)"
  shows "disabled_inv (objects (snd (get_next_due_activity now s)) x)"
  using assms by (simp add: selection_objects disabled_inv_def)

text \<open>
  Claim C8. \<open>state = DISABLED\<close> implies \<open>config.enabled = False\<close>: this holds for a new
  activity and is preserved by \<^verbatim>\<open>run\<close>, \<^verbatim>\<open>enable\<close>, \<^verbatim>\<open>disable\<close>,
  \<^verbatim>\<open>reset_statistics\<close>, \<^verbatim>\<open>force_run_now\<close>, \<^verbatim>\<open>is_due\<close> and the scheduler's selection.
  A task that is \<open>DISABLED\<close>, or not enabled, is not reported due and is not selected;
  every operation but \<^verbatim>\<open>enable\<close> leaves a task that is not enabled not enabled; and
  \<^verbatim>\<open>enable\<close> sets \<open>retry_count\<close> to 0, the state to \<open>SCHEDULED\<close> and
  \<open>config.enabled\<close> to true.
\<close>

theorem disabled_invariant:
  "disabled_inv (Activity_init nm cfg) \<and>
   (disabled_inv a \<longrightarrow>
      disabled_inv (snd (run ph clk a)) \<and> disabled_inv (enable a) \<and>
      disabled_inv (disable a) \<and> disabled_inv (reset_statistics a) \<and>
      disabled_inv (force_run_now t a) \<and> disabled_inv (snd (is_due now a))) \<and>
   ((\<forall>x. disabled_inv (objects s x)) \<longrightarrow>
      (\<forall>x. disabled_inv (objects (snd (get_next_due_activity now s)) x))) \<and>
   (state a = DISABLED \<longrightarrow> \<not> fst (is_due now a)) \<and>
   (state (objects s r) = DISABLED \<longrightarrow> fst (get_next_due_activity now s) \<noteq> Some r) \<and>
   (\<not> enabled (config a) \<longrightarrow>
      \<not> fst (is_due now a) \<and>
      \<not> enabled (config (snd (run ph clk a))) \<and> \<not> enabled (config (disable a)) \<and>
      \<not> enabled (config (reset_statistics a)) \<and> \<not> enabled (config (force_run_now t a)) \<and>
      \<not> enabled (config (snd (is_due now a)))) \<and>
   (\<not> enabled (config (objects s r)) \<longrightarrow> fst (get_next_due_activity now s) \<noteq> Some r) \<and>
   retry_count (enable a) = 0 \<and> state (enable a) = SCHEDULED \<and> enabled (config (enable a))"
proof (intro conjI impI allI)
  show "disabled_inv (Activity_init nm cfg)"
    by (simp add: disabled_inv_def Activity_init_def)
  show "disabled_inv (snd (run ph clk a))" by (rule run_disabled_inv)
  show "disabled_inv (enable a)" by (simp add: disabled_inv_def)
  show "disabled_inv (disable a)" by (simp add: disabled_inv_def)
  show "disabled_inv (reset_statistics a)" if "disabled_inv a"
    using that by (simp add: disabled_inv_def)
  show "disabled_inv (force_run_now t a)" if "disabled_inv a"
    using that by (simp add: disabled_inv_def)
  show "disabled_inv (snd (is_due now a))" if "disabled_inv a"
    using that by (simp add: disabled_inv_def)
  show "disabled_inv (objects (snd (get_next_due_activity now s)) x)"
    if "\<forall>x. disabled_inv (objects s x)" for x
    using that by (rule selection_disabled_inv)
  show "\<not> fst (is_due now a)" if "state a = DISABLED"
    using that by (rule is_due_DISABLED)
  show "fst (get_next_due_activity now s) \<noteq> Some r" if "state (objects s r) = DISABLED"
    using that by (rule selection_not_DISABLED)
  show "\<not> fst (is_due now a)" if "\<not> enabled (config a)"
    using that by (rule is_due_not_enabled)
  show "\<not> enabled (config (snd (run ph clk a)))" if "\<not> enabled (config a)"
    using that by (rule run_keeps_not_enabled)
  show "\<not> enabled (config (disable a))" by simp
  show "\<not> enabled (config (reset_statistics a))" if "\<not> enabled (config a)"
    using that by simp
  show "\<not> enabled (config (force_run_now t a))" if "\<not> enabled (config a)"
    using that by simp
  show "\<not> enabled (config (snd (is_due now a)))" if "\<not> enabled (config a)"
    using that by simp
  show "fst (get_next_due_activity now s) \<noteq> Some r" if "\<not> enabled (config (objects s r))"
    using that by (rule selection_not_enabled)
  show "retry_count (enable a) = 0" by simp
  show "state (enable a) = SCHEDULED" by simp
  show "enabled (config (enable a))" by simp
qed

lemma disabled_A_state: "state disabled_A = DISABLED"
proof -
  have f: "failing execute_fails"
    by (simp add: failing_def execute_fails_def)
  have lim1: "int (retry_count task_A) + 1 < max_retries (config task_A)"
    by (simp add: task_A_def Activity_init_def scenario_config_def)
  note f1 = run_failing_retry [OF f lim1, of "clock_at 0"]
  have lim2: "int (retry_count (snd (run execute_fails (clock_at 0) task_A))) + 1
      \<ge> max_retries (config (snd (run execute_fails (clock_at 0) task_A)))"
    using f1 by (simp add: task_A_def Activity_init_def scenario_config_def)
  from run_failing_disable(2) [OF f lim2, of "clock_at 300000000"]
  show ?thesis by (simp add: disabled_A_def)
qed

theorem disabled_invariant_witness:
  "disabled_inv task_A \<and> state disabled_A = DISABLED \<and> disabled_inv disabled_A \<and>
   \<not> enabled (config disabled_A) \<and>
   \<not> fst (is_due 300000000 disabled_A) \<and>
   \<not> fst (is_due 300000000 (force_run_now 0 disabled_A)) \<and>
   state (enable disabled_A) = SCHEDULED \<and> retry_count (enable disabled_A) = 0"
proof -
  define a1 where "a1 = snd (run execute_fails (clock_at 0) task_A)"
  have d: "disabled_A = snd (run execute_fails (clock_at 300000000) a1)"
    by (simp add: disabled_A_def a1_def)
  have i0: "disabled_inv task_A"
    using disabled_invariant [of "''Task A''" scenario_config] by (simp add: task_A_def)
  have i1: "disabled_inv a1"
    using i0 disabled_invariant [of _ _ task_A execute_fails "clock_at 0"]
    by (simp add: a1_def)
  have i2: "disabled_inv disabled_A"
    using i1 disabled_invariant [of _ _ a1 execute_fails "clock_at 300000000"]
    by (simp add: d)
  have ne: "\<not> enabled (config disabled_A)"
    using i2 disabled_A_state by (simp add: disabled_inv_def)
  have nd: "\<not> fst (is_due 300000000 disabled_A)"
    using disabled_A_state disabled_invariant [of _ _ disabled_A _ _ _ 300000000] by simp
  have nf: "\<not> fst (is_due 300000000 (force_run_now 0 disabled_A))"
    using ne disabled_invariant [of _ _ "force_run_now 0 disabled_A" _ _ _ 300000000]
    by simp
  have en: "state (enable disabled_A) = SCHEDULED" "retry_count (enable disabled_A) = 0"
    using disabled_invariant [of _ _ disabled_A] by simp_all
  show ?thesis
    using i0 disabled_A_state i2 ne nd nf en by simp
qed


lemma default_id_Task_A: "default_id ''Task A'' = ''task_a''"
  by code_simp

lemma scheduler_A_lookup:
  "activities_by_id scheduler_A = (\<lambda>k. None)(''task_a'' := Some 0)"
  "objects scheduler_A 5 = task_A"
  "name task_A = ''Task A''"
  by (simp_all add: scheduler_A_def register_activity_def ActivityScheduler_init_def Let_def
      truthy_def default_id_Task_A task_A_def Activity_init_def)


lemma register_new:
  assumes "r \<notin> set (activities s)"
  shows "activities (register_activity r None s) = activities s @ [r]"
    and "activities_by_id (register_activity r None s) =
           (activities_by_id s)(default_id (name (objects s r)) := Some r)"
    and "\<And>x. x \<noteq> r \<Longrightarrow> objects (register_activity r None s) x = objects s x"
  using assms by (simp_all add: register_activity_def Let_def truthy_def)

text \<open>
  Claim C10. Registration rejects only the instance that is already registered. When a
  second, distinct instance with the same derived id as a registered one is registered,
  both are in the list of activities, \<^verbatim>\<open>get_activity\<close> of that id returns the second,
  and \<^verbatim>\<open>unregister_activity\<close> of that id removes the second only: the first stays in the
  list, where the selection finds it when it is due, and no id leads to it.
\<close>

theorem duplicate_id_registration:
  assumes "r1 \<in> set (activities s)" and "r2 \<notin> set (activities s)"
    and "default_id (name (objects s r2)) = k" and "activities_by_id s k = Some r1"
    and "\<forall>k'. k' \<noteq> k \<longrightarrow> activities_by_id s k' \<noteq> Some r1"
  shows "(\<forall>aid. register_activity r1 aid s = s) \<and>
    activities (register_activity r2 None s) = activities s @ [r2] \<and>
    r1 \<in> set (activities (register_activity r2 None s)) \<and>
    r2 \<in> set (activities (register_activity r2 None s)) \<and>
    get_activity k (register_activity r2 None s) = Some r2 \<and>
    (\<exists>s'. unregister_activity k (register_activity r2 None s) = Inr (True, s') \<and>
          activities s' = activities s \<and> r1 \<in> set (activities s') \<and>
          r2 \<notin> set (activities s') \<and>
          (\<forall>k'. get_activity k' s' \<noteq> Some r1) \<and>
          (\<forall>now. due now s' r1 \<longrightarrow> fst (get_next_due_activity now s') \<noteq> None) \<and>
          (\<forall>now. due now s' r1 \<and> (\<forall>y \<in> set (activities s'). y \<noteq> r1 \<longrightarrow> \<not> due now s' y)
             \<longrightarrow> fst (get_next_due_activity now s') = Some r1))"
proof -
  define s1 where "s1 = register_activity r2 None s"
  note reg = register_new [OF assms(2), folded s1_def]
  have acts1: "activities s1 = activities s @ [r2]" by (rule reg(1))
  have by1: "activities_by_id s1 = (activities_by_id s)(k := Some r2)"
    using reg(2) assms(3) by simp
  define s2 where
    "s2 = s1\<lparr>activities := remove1 r2 (activities s1),
            activities_by_id := (activities_by_id s1)(k := None)\<rparr>"
  have un: "unregister_activity k s1 = Inr (True, s2)"
    by (simp add: unregister_activity_def by1 acts1 s2_def Let_def)
  have acts2: "activities s2 = activities s"
    using assms(2) by (simp add: s2_def acts1 remove1_append)
  have by2: "activities_by_id s2 = (activities_by_id s)(k := None)"
    by (simp add: s2_def by1)
  have unreachable: "get_activity k' s2 \<noteq> Some r1" for k'
    using assms(5) by (simp add: get_activity_def by2)
  have sel1: "fst (get_next_due_activity now s2) \<noteq> None" if "due now s2 r1" for now
    using that assms(1) by (auto simp: selection_None acts2)
  have sel2: "fst (get_next_due_activity now s2) = Some r1"
    if "due now s2 r1 \<and> (\<forall>y \<in> set (activities s2). y \<noteq> r1 \<longrightarrow> \<not> due now s2 y)" for now
    using that assms(1) by (intro selection_lowest) (auto simp: acts2)
  have rej: "register_activity r1 aid s = s" for aid
    using assms(1) by (simp add: register_activity_def)
  have "unregister_activity k s1 = Inr (True, s2) \<and>
          activities s2 = activities s \<and> r1 \<in> set (activities s2) \<and>
          r2 \<notin> set (activities s2) \<and>
          (\<forall>k'. get_activity k' s2 \<noteq> Some r1) \<and>
          (\<forall>now. due now s2 r1 \<longrightarrow> fst (get_next_due_activity now s2) \<noteq> None) \<and>
          (\<forall>now. due now s2 r1 \<and> (\<forall>y \<in> set (activities s2). y \<noteq> r1 \<longrightarrow> \<not> due now s2 y)
             \<longrightarrow> fst (get_next_due_activity now s2) = Some r1)"
    using un acts2 assms(1,2) unreachable sel1 sel2 by simp
  then have ex: "\<exists>s'. unregister_activity k s1 = Inr (True, s') \<and>
          activities s' = activities s \<and> r1 \<in> set (activities s') \<and>
          r2 \<notin> set (activities s') \<and>
          (\<forall>k'. get_activity k' s' \<noteq> Some r1) \<and>
          (\<forall>now. due now s' r1 \<longrightarrow> fst (get_next_due_activity now s') \<noteq> None) \<and>
          (\<forall>now. due now s' r1 \<and> (\<forall>y \<in> set (activities s'). y \<noteq> r1 \<longrightarrow> \<not> due now s' y)
             \<longrightarrow> fst (get_next_due_activity now s') = Some r1)"
    by (rule exI)
  have g: "get_activity k s1 = Some r2"
    by (simp add: get_activity_def by1)
  show ?thesis
    using rej acts1 assms(1) g ex unfolding s1_def by simp
qed

theorem duplicate_id_registration_witness:
  "0 \<in> set (activities scheduler_A) \<and> 5 \<notin> set (activities scheduler_A) \<and>
   default_id (name (objects scheduler_A 5)) = ''task_a'' \<and>
   activities_by_id scheduler_A ''task_a'' = Some 0 \<and>
   activities (register_activity 5 None scheduler_A) = [0, 5] \<and>
   get_activity ''task_a'' (register_activity 5 None scheduler_A) = Some 5 \<and>
   (\<exists>s'. unregister_activity ''task_a'' (register_activity 5 None scheduler_A) =
            Inr (True, s') \<and>
         activities s' = [0] \<and> (\<forall>k'. get_activity k' s' \<noteq> Some 0))"
proof -
  have h: "0 \<in> set (activities scheduler_A)" "5 \<notin> set (activities scheduler_A)"
    "default_id (name (objects scheduler_A 5)) = ''task_a''"
    "activities_by_id scheduler_A ''task_a'' = Some 0"
    "\<forall>k'. k' \<noteq> ''task_a'' \<longrightarrow> activities_by_id scheduler_A k' \<noteq> Some 0"
    by (simp_all add: scheduler_A_fields scheduler_A_lookup default_id_Task_A)
  note T = duplicate_id_registration [OF h]
  have a: "activities (register_activity 5 None scheduler_A) = [0, 5]"
    using T by (simp add: scheduler_A_fields)
  have g: "get_activity ''task_a'' (register_activity 5 None scheduler_A) = Some 5"
    using T by simp
  have e: "\<exists>s'. unregister_activity ''task_a'' (register_activity 5 None scheduler_A) =
            Inr (True, s') \<and>
         activities s' = [0] \<and> (\<forall>k'. get_activity k' s' \<noteq> Some 0)"
    using T by (auto simp: scheduler_A_fields)
  show ?thesis using h(1-4) a g e by simp
qed

end
